theory Spec2Isabelle
  imports Main "HOL-Library.Word"
begin

unbundle bit_operations_syntax

section \<open>The Kinetis RTC driver (arch/arm/src/kinetis/kinetis_rtc.c)\<close>

text \<open>
  The driver keeps no time in memory: the time lives in the peripheral's registers, which
  the code reaches only through \<^verbatim>\<open>getreg32\<close> and \<^verbatim>\<open>putreg32\<close>. The embedding
  keeps that boundary. Every driver function below is written against a register bus
  (a pair of access functions over some hardware state \<open>'h\<close>), and two hardware
  backends instantiate it:
  \<^item> \<open>regfile_bus\<close>, registers that hold what was last written and record every write
    (the counter does not tick while the driver runs);
  \<^item> \<open>counter_bus\<close>, a free-running counter whose value at each successive register
    access is given by a tick trace.
\<close>

subsection \<open>Data\<close>

type_synonym u32 = "32 word"

text \<open>The registers the file names (their addresses come from the chip headers).\<close>

datatype reg =
    KINETIS_SIM_SCGC6
  | KINETIS_RTC_SR
  | KINETIS_RTC_CR
  | KINETIS_RTC_IER
  | KINETIS_RTC_TSR
  | KINETIS_RTC_TPR
  | KINETIS_RTC_TAR

text \<open>
  The constants of the chip headers and of the board configuration are not part of the
  file; they are parameters of the model. \<open>CONFIG_RTC_FREQUENCY\<close> is a positive
  integer literal (the prescaler's ticks per second).
\<close>

record config =
  CONFIG_RTC_FREQUENCY :: nat
  SIM_SCGC6_RTC :: u32
  RTC_CR_SC16P :: u32
  RTC_CR_SC4P :: u32
  RTC_CR_OSCE :: u32
  RTC_SR_TCE :: u32
  RTC_IER_TAIE :: u32

text \<open>
  \<^verbatim>\<open>struct timespec\<close>: \<open>tv_sec\<close> is a \<^verbatim>\<open>time_t\<close> (32 bits, unsigned) and
  \<open>tv_nsec\<close> a \<^verbatim>\<open>long\<close> (32 bits on this architecture, two's complement: \<open>sint\<close>
  reads it).
\<close>

record timespec =
  tv_sec :: u32
  tv_nsec :: u32

text \<open>\<^verbatim>\<open>alarmcb_t\<close> is a pointer to a function without arguments; \<open>NULL\<close> is 0.\<close>

type_synonym alarmcb_t = u32

definition NULL :: alarmcb_t where
  "NULL = 0"

text \<open>The status codes the functions return: \<^verbatim>\<open>OK\<close>, \<^verbatim>\<open>-EBUSY\<close>, \<^verbatim>\<open>-ENODATA\<close>.\<close>

datatype retval = OK | NEG_EBUSY | NEG_ENODATA

text \<open>The register bus: \<^verbatim>\<open>getreg32(addr)\<close> and \<^verbatim>\<open>putreg32(val, addr)\<close>.\<close>

record 'h bus =
  getreg32 :: "reg \<Rightarrow> 'h \<Rightarrow> u32 \<times> 'h"
  putreg32 :: "u32 \<Rightarrow> reg \<Rightarrow> 'h \<Rightarrow> 'h"

text \<open>
  The state the driver works on: its two globals, the processor's interrupt mask (what
  \<^verbatim>\<open>enter_critical_section\<close> saves and \<^verbatim>\<open>leave_critical_section\<close> restores),
  the interrupt controller's view of the RTC line (\<^verbatim>\<open>irq_attach\<close>,
  \<^verbatim>\<open>up_enable_irq\<close>), the hardware behind the bus, and a record of the callbacks
  that were called, in order.
\<close>

record 'h rtc =
  g_alarmcb :: alarmcb_t
  g_rtc_enabled :: bool
  irq_masked :: bool
  rtc_irq_attached :: bool
  rtc_irq_enabled :: bool
  invoked :: "alarmcb_t list"
  hw :: 'h

text \<open>Static storage is zero-initialised: no callback, RTC not enabled.\<close>

definition boot_state :: "'h \<Rightarrow> 'h rtc" where
  "boot_state h =
     \<lparr>g_alarmcb = NULL, g_rtc_enabled = False, irq_masked = False,
      rtc_irq_attached = False, rtc_irq_enabled = False, invoked = [], hw = h\<rparr>"

definition enter_critical_section :: "'h rtc \<Rightarrow> bool \<times> 'h rtc" where
  "enter_critical_section s = (irq_masked s, s\<lparr>irq_masked := True\<rparr>)"

definition leave_critical_section :: "bool \<Rightarrow> 'h rtc \<Rightarrow> 'h rtc" where
  "leave_critical_section flags s = s\<lparr>irq_masked := flags\<rparr>"

subsection \<open>The driver\<close>

definition up_rtc_initialize :: "'h bus \<Rightarrow> config \<Rightarrow> 'h rtc \<Rightarrow> retval \<times> 'h rtc" where
  "up_rtc_initialize b cfg s =
     (let (regval, h1) = getreg32 b KINETIS_SIM_SCGC6 (hw s);
          regval = regval OR SIM_SCGC6_RTC cfg;
          h2 = putreg32 b regval KINETIS_SIM_SCGC6 h1;
          h3 = putreg32 b 0 KINETIS_RTC_SR h2;
          h4 = putreg32 b (RTC_CR_SC16P cfg OR RTC_CR_SC4P cfg OR RTC_CR_OSCE cfg)
                 KINETIS_RTC_CR h3;
          h5 = putreg32 b 0 KINETIS_RTC_IER h4;
          (tsr, h6) = getreg32 b KINETIS_RTC_TSR h5;
          h7 = putreg32 b tsr KINETIS_RTC_TSR h6;
          s1 = s\<lparr>rtc_irq_attached := True, rtc_irq_enabled := True\<rparr>;
          h8 = putreg32 b (RTC_SR_TCE cfg) KINETIS_RTC_SR h7
      in (OK, s1\<lparr>hw := h8, g_rtc_enabled := True\<rparr>))"

text \<open>Low-resolution read (built when \<^verbatim>\<open>CONFIG_RTC_HIRES\<close> is not set).\<close>

definition up_rtc_time :: "'h bus \<Rightarrow> 'h rtc \<Rightarrow> u32 \<times> 'h rtc" where
  "up_rtc_time b s =
     (let (seconds, h1) = getreg32 b KINETIS_RTC_TSR (hw s)
      in (seconds, s\<lparr>hw := h1\<rparr>))"

text \<open>
  High-resolution read. The \<^verbatim>\<open>do ... while (prescaler > prescaler2)\<close> loop has no bound
  in the code, so it is a partial function: \<open>None\<close> is the loop that never exits. It
  returns the three values read in the last round and the hardware state after it.
\<close>

partial_function (option) gettime_loop :: "'h bus \<Rightarrow> 'h \<Rightarrow> ((u32 \<times> u32 \<times> u32) \<times> 'h) option" where
  "gettime_loop b h =
     (let (prescaler, h1) = getreg32 b KINETIS_RTC_TPR h;
          (seconds, h2) = getreg32 b KINETIS_RTC_TSR h1;
          (prescaler2, h3) = getreg32 b KINETIS_RTC_TPR h2
      in if prescaler > prescaler2 then gettime_loop b h3
         else Some ((seconds, prescaler, prescaler2), h3))"

definition up_rtc_gettime :: "'h bus \<Rightarrow> config \<Rightarrow> 'h rtc \<Rightarrow> ((retval \<times> timespec) \<times> 'h rtc) option" where
  "up_rtc_gettime b cfg s =
     (let (flags, s1) = enter_critical_section s
      in case gettime_loop b (hw s1) of
           None \<Rightarrow> None
         | Some ((seconds, prescaler, prescaler2), h) \<Rightarrow>
             let s2 = leave_critical_section flags (s1\<lparr>hw := h\<rparr>);
                 tp = \<lparr>tv_sec = seconds,
                       tv_nsec = prescaler * of_nat (1000000000 div CONFIG_RTC_FREQUENCY cfg)\<rparr>
             in Some ((OK, tp), s2))"

definition up_rtc_settime :: "'h bus \<Rightarrow> config \<Rightarrow> timespec \<Rightarrow> 'h rtc \<Rightarrow> retval \<times> 'h rtc" where
  "up_rtc_settime b cfg tp s =
     (let seconds = tv_sec tp;
          prescaler = tv_nsec tp * of_nat (CONFIG_RTC_FREQUENCY cfg div 1000000000);
          (flags, s1) = enter_critical_section s;
          h1 = putreg32 b 0 KINETIS_RTC_SR (hw s1);
          h2 = putreg32 b prescaler KINETIS_RTC_TPR h1;
          h3 = putreg32 b seconds KINETIS_RTC_TSR h2;
          h4 = putreg32 b (RTC_SR_TCE cfg) KINETIS_RTC_SR h3;
          s2 = leave_critical_section flags (s1\<lparr>hw := h4\<rparr>)
      in (OK, s2))"

definition kinetis_rtc_setalarm :: "'h bus \<Rightarrow> config \<Rightarrow> timespec \<Rightarrow> alarmcb_t \<Rightarrow> 'h rtc \<Rightarrow> retval \<times> 'h rtc" where
  "kinetis_rtc_setalarm b cfg tp callback s =
     (if g_alarmcb s = NULL then
        (let s1 = s\<lparr>g_alarmcb := callback\<rparr>;
             h1 = putreg32 b (tv_sec tp) KINETIS_RTC_TAR (hw s1);
             h2 = putreg32 b (RTC_IER_TAIE cfg) KINETIS_RTC_IER h1
         in (OK, s1\<lparr>hw := h2\<rparr>))
      else (NEG_EBUSY, s))"

definition kinetis_rtc_cancelalarm :: "'h bus \<Rightarrow> 'h rtc \<Rightarrow> retval \<times> 'h rtc" where
  "kinetis_rtc_cancelalarm b s =
     (if g_alarmcb s \<noteq> NULL then
        (let s1 = s\<lparr>g_alarmcb := NULL\<rparr>;
             h1 = putreg32 b 0 KINETIS_RTC_IER (hw s1)
         in (OK, s1\<lparr>hw := h1\<rparr>))
      else (NEG_ENODATA, s))"

text \<open>
  The interrupt handler. The callback is code of the host: \<open>body cb\<close> is what running
  the function at \<open>cb\<close> does to the state (it may itself call the driver). The call is
  recorded in \<open>invoked\<close> before the body runs. The handler does not use its two
  arguments (the interrupt number and the saved context) and returns 0.
\<close>

definition kinetis_rtc_interrupt :: "'h bus \<Rightarrow> (alarmcb_t \<Rightarrow> 'h rtc \<Rightarrow> 'h rtc) \<Rightarrow> 'h rtc \<Rightarrow> int \<times> 'h rtc" where
  "kinetis_rtc_interrupt b body s =
     (let s1 = (if g_alarmcb s \<noteq> NULL then
                  (let s' = body (g_alarmcb s) (s\<lparr>invoked := invoked s @ [g_alarmcb s]\<rparr>)
                   in s'\<lparr>g_alarmcb := NULL\<rparr>)
                else s);
          h1 = putreg32 b 0 KINETIS_RTC_TAR (hw s1);
          h2 = putreg32 b 0 KINETIS_RTC_IER h1
      in (0, s1\<lparr>hw := h2\<rparr>))"

subsection \<open>Hardware backends\<close>

text \<open>
  Registers as storage: a read returns what the register holds, a write stores the value
  and is appended to the write trace. Nothing ticks.
\<close>

record regfile =
  mem :: "reg \<Rightarrow> u32"
  wlog :: "(reg \<times> u32) list"

definition regfile_bus :: "regfile bus" where
  "regfile_bus =
     \<lparr>getreg32 = (\<lambda>r h. (mem h r, h)),
      putreg32 = (\<lambda>v r h. h\<lparr>mem := (mem h)(r := v), wlog := wlog h @ [(r, v)]\<rparr>)\<rparr>"

text \<open>
  A free-running counter. The hardware state is the number of register accesses made so
  far, and \<open>clk k\<close> is the count of prescaler ticks since power-up at the moment of
  access number \<open>k\<close>. With \<open>F\<close> ticks to the second, the seconds register reads
  \<open>clk k div F\<close> and the prescaler register \<open>clk k mod F\<close>; both are 32 bits wide.
  Writes and the other registers play no part in the read path.
\<close>

definition counter_bus :: "nat \<Rightarrow> (nat \<Rightarrow> nat) \<Rightarrow> nat bus" where
  "counter_bus F clk =
     \<lparr>getreg32 = (\<lambda>r k. (case r of
                             KINETIS_RTC_TSR \<Rightarrow> of_nat (clk k div F)
                           | KINETIS_RTC_TPR \<Rightarrow> of_nat (clk k mod F)
                           | _ \<Rightarrow> 0, Suc k)),
      putreg32 = (\<lambda>v r k. Suc k)\<rparr>"

subsection \<open>Sample configuration and states\<close>

text \<open>
  A configuration with the usual 32768 Hz crystal, used where the model is evaluated on
  concrete inputs, and a register file that holds zero everywhere.
\<close>

definition cfg0 :: config where
  "cfg0 =
     \<lparr>CONFIG_RTC_FREQUENCY = 32768, SIM_SCGC6_RTC = 0x20000000, RTC_CR_SC16P = 0x400,
      RTC_CR_SC4P = 0x1000, RTC_CR_OSCE = 0x100, RTC_SR_TCE = 0x10, RTC_IER_TAIE = 4\<rparr>"

definition rf0 :: regfile where
  "rf0 = \<lparr>mem = (\<lambda>_. 0), wlog = []\<rparr>"

definition tp0 :: timespec where
  "tp0 = \<lparr>tv_sec = 100, tv_nsec = 500000000\<rparr>"

text \<open>Two tick traces for the counter, both at 32768 ticks to the second.\<close>

text \<open>
  \<open>clk_wrap\<close>: one tick between consecutive register accesses, starting two ticks
  before the end of second 0, so that the first round of the read loop straddles the
  wrap.
\<close>

definition clk_wrap :: "nat \<Rightarrow> nat" where
  "clk_wrap k = 32766 + k"

text \<open>
  \<open>clk_stall\<close>: in round \<open>i\<close> of the read loop (accesses \<open>3 * i\<close>, \<open>3 * i + 1\<close>,
  \<open>3 * i + 2\<close>) the first two accesses happen on the last tick of second \<open>i\<close> and the
  third on the first tick of second \<open>i + 1\<close>; the next round starts 32767 ticks later.
\<close>

definition clk_stall :: "nat \<Rightarrow> nat" where
  "clk_stall k = (k div 3) * 32768 + (if k mod 3 = 2 then 32768 else 32767)"

text \<open>
  \<open>clk_late\<close>: the first two rounds as in \<open>clk_stall\<close>, each with a wrap between
  its two prescaler reads; from the third round on, one tick between consecutive
  accesses.
\<close>

definition clk_late :: "nat \<Rightarrow> nat" where
  "clk_late k = (if k < 6 then clk_stall k else 65536 + k)"

text \<open>
  A callback whose run can be seen from outside: it writes the callback pointer that is
  stored in \<open>g_alarmcb\<close> while it runs to the seconds register, one write for each run.
\<close>

definition probe_body :: "alarmcb_t \<Rightarrow> regfile rtc \<Rightarrow> regfile rtc" where
  "probe_body c t = t\<lparr>hw := putreg32 regfile_bus (g_alarmcb t) KINETIS_RTC_TSR (hw t)\<rparr>"

subsection \<open>Notions the properties are stated with\<close>

text \<open>
  The write path as the specification words it: the inverse of the read path's
  \<open>nanoseconds = fraction * (1000000000 / frequency)\<close>, truncated.
\<close>

definition nsec_to_ticks_spec :: "nat \<Rightarrow> nat \<Rightarrow> nat" where
  "nsec_to_ticks_spec frequency nanoseconds = nanoseconds div (1000000000 div frequency)"

text \<open>
  The states the alarm functions can reach on the register file, from a freshly
  initialised driver: any number of \<open>kinetis_rtc_setalarm\<close> calls whose callback
  argument satisfies \<open>accepts\<close>, of \<open>kinetis_rtc_cancelalarm\<close> calls and of runs of the
  interrupt handler (also spurious ones), in any order.
\<close>

inductive reachable :: "config \<Rightarrow> (alarmcb_t \<Rightarrow> regfile rtc \<Rightarrow> regfile rtc) \<Rightarrow> (alarmcb_t \<Rightarrow> bool) \<Rightarrow> regfile rtc \<Rightarrow> bool"
  for cfg body accepts where
    reach_init:
      "reachable cfg body accepts (snd (up_rtc_initialize regfile_bus cfg (boot_state h)))"
  | reach_setalarm:
      "reachable cfg body accepts s \<Longrightarrow> accepts callback \<Longrightarrow>
       reachable cfg body accepts (snd (kinetis_rtc_setalarm regfile_bus cfg tp callback s))"
  | reach_cancelalarm:
      "reachable cfg body accepts s \<Longrightarrow>
       reachable cfg body accepts (snd (kinetis_rtc_cancelalarm regfile_bus s))"
  | reach_interrupt:
      "reachable cfg body accepts s \<Longrightarrow>
       reachable cfg body accepts (snd (kinetis_rtc_interrupt regfile_bus body s))"

text \<open>The hardware alarm is armed when the alarm-interrupt-enable bit is set.\<close>

definition alarm_armed :: "config \<Rightarrow> regfile rtc \<Rightarrow> bool" where
  "alarm_armed cfg s \<longleftrightarrow> mem (hw s) KINETIS_RTC_IER AND RTC_IER_TAIE cfg \<noteq> 0"

definition alarm_inv :: "config \<Rightarrow> regfile rtc \<Rightarrow> bool" where
  "alarm_inv cfg s \<longleftrightarrow> (g_alarmcb s \<noteq> NULL) = alarm_armed cfg s"

text \<open>
  On a tick trace, the prescaler wraps at most once in every round of the read loop that
  starts at access \<open>k\<close>: between the first access of a round and the first access of
  the next one, the seconds go up by at most one.
\<close>

definition wraps_at_most_once_per_iteration :: "nat \<Rightarrow> (nat \<Rightarrow> nat) \<Rightarrow> nat \<Rightarrow> bool" where
  "wraps_at_most_once_per_iteration F clk k \<longleftrightarrow>
     (\<forall>i. clk (k + 3 * i + 3) div F \<le> clk (k + 3 * i) div F + 1)"


section \<open>Properties\<close>

lemmas bus_simps =
  regfile_bus_def enter_critical_section_def leave_critical_section_def Let_def

subsection \<open>Setting the time\<close>

text \<open>
  C4: every call of \<open>up_rtc_settime\<close> makes exactly four register writes, in this
  order: the status register is cleared (counter stopped), the prescaler register is
  written, the seconds register is written, the status register gets the counter-enable
  bit (counter restarted). The prescaler write comes before the seconds write.
\<close>

theorem up_rtc_settime_write_order:
  "wlog (hw (snd (up_rtc_settime regfile_bus cfg tp s))) =
     wlog (hw s) @
       [(KINETIS_RTC_SR, 0),
        (KINETIS_RTC_TPR, tv_nsec tp * of_nat (CONFIG_RTC_FREQUENCY cfg div 1000000000)),
        (KINETIS_RTC_TSR, tv_sec tp),
        (KINETIS_RTC_SR, RTC_SR_TCE cfg)]"
  by (simp add: up_rtc_settime_def bus_simps)

subsection \<open>The alarm slot\<close>

text \<open>
  C5: when a callback is already stored, \<open>kinetis_rtc_setalarm\<close> returns
  \<^verbatim>\<open>-EBUSY\<close> and the whole state (stored callback, registers, write trace) is the
  one before the call, on any bus. Otherwise it returns \<^verbatim>\<open>OK\<close>, stores the callback,
  and makes exactly two register writes: the seconds of the target time to the alarm
  register, then the alarm-interrupt-enable bit to the interrupt-enable register. The
  status register is not written and no other register changes.
\<close>

theorem kinetis_rtc_setalarm_spec:
  "(g_alarmcb t \<noteq> NULL \<longrightarrow>
      kinetis_rtc_setalarm b cfg tp cb t = (NEG_EBUSY, t)) \<and>
   (g_alarmcb s = NULL \<longrightarrow>
      kinetis_rtc_setalarm regfile_bus cfg tp cb s =
        (OK, s\<lparr>g_alarmcb := cb,
               hw := (hw s)\<lparr>mem := (mem (hw s))(KINETIS_RTC_TAR := tv_sec tp,
                                                  KINETIS_RTC_IER := RTC_IER_TAIE cfg),
                            wlog := wlog (hw s) @ [(KINETIS_RTC_TAR, tv_sec tp),
                                                   (KINETIS_RTC_IER, RTC_IER_TAIE cfg)]\<rparr>\<rparr>))"
  by (simp add: kinetis_rtc_setalarm_def bus_simps)

theorem kinetis_rtc_setalarm_spec_witness:
  "g_alarmcb ((boot_state rf0)\<lparr>g_alarmcb := 7\<rparr>) \<noteq> NULL \<and>
   kinetis_rtc_setalarm regfile_bus cfg0 tp0 9 ((boot_state rf0)\<lparr>g_alarmcb := 7\<rparr>) =
     (NEG_EBUSY, (boot_state rf0)\<lparr>g_alarmcb := 7\<rparr>) \<and>
   g_alarmcb (boot_state rf0) = NULL \<and>
   kinetis_rtc_setalarm regfile_bus cfg0 tp0 9 (boot_state rf0) =
     (OK, (boot_state rf0)
            \<lparr>g_alarmcb := 9,
             hw := \<lparr>mem = (\<lambda>_. 0)(KINETIS_RTC_TAR := 100, KINETIS_RTC_IER := 4),
                    wlog = [(KINETIS_RTC_TAR, 100), (KINETIS_RTC_IER, 4)]\<rparr>\<rparr>)"
proof -
  have busy: "g_alarmcb ((boot_state rf0)\<lparr>g_alarmcb := 7\<rparr>) \<noteq> NULL"
    by (simp add: NULL_def)
  have idle: "g_alarmcb (boot_state rf0 :: regfile rtc) = NULL"
    by (simp add: boot_state_def)
  show ?thesis
    using busy idle
      kinetis_rtc_setalarm_spec [of "(boot_state rf0)\<lparr>g_alarmcb := 7\<rparr>" regfile_bus cfg0 tp0 9
        "boot_state rf0"]
    by (simp add: boot_state_def rf0_def cfg0_def tp0_def)
qed

text \<open>
  C6: when no callback is stored, \<open>kinetis_rtc_cancelalarm\<close> returns
  \<^verbatim>\<open>-ENODATA\<close> and the state is the one before the call, on any bus. Otherwise it
  returns \<^verbatim>\<open>OK\<close>, clears the stored callback and makes exactly one register write,
  0 to the interrupt-enable register; the alarm register keeps its value. On a freshly
  initialised driver the call returns \<^verbatim>\<open>-ENODATA\<close>.
\<close>

theorem kinetis_rtc_cancelalarm_spec:
  "(g_alarmcb t = NULL \<longrightarrow>
      kinetis_rtc_cancelalarm b t = (NEG_ENODATA, t)) \<and>
   (g_alarmcb s \<noteq> NULL \<longrightarrow>
      kinetis_rtc_cancelalarm regfile_bus s =
        (OK, s\<lparr>g_alarmcb := NULL,
               hw := (hw s)\<lparr>mem := (mem (hw s))(KINETIS_RTC_IER := 0),
                            wlog := wlog (hw s) @ [(KINETIS_RTC_IER, 0)]\<rparr>\<rparr>) \<and>
      mem (hw (snd (kinetis_rtc_cancelalarm regfile_bus s))) KINETIS_RTC_TAR =
        mem (hw s) KINETIS_RTC_TAR) \<and>
   fst (kinetis_rtc_cancelalarm b (snd (up_rtc_initialize b cfg (boot_state h)))) = NEG_ENODATA"
  by (simp add: kinetis_rtc_cancelalarm_def up_rtc_initialize_def boot_state_def bus_simps
      split: prod.split)

theorem kinetis_rtc_cancelalarm_spec_witness:
  "g_alarmcb (boot_state rf0) = NULL \<and>
   kinetis_rtc_cancelalarm regfile_bus (boot_state rf0) = (NEG_ENODATA, boot_state rf0) \<and>
   g_alarmcb (snd (kinetis_rtc_setalarm regfile_bus cfg0 tp0 9 (boot_state rf0))) \<noteq> NULL \<and>
   fst (kinetis_rtc_cancelalarm regfile_bus
          (snd (kinetis_rtc_setalarm regfile_bus cfg0 tp0 9 (boot_state rf0)))) = OK \<and>
   mem (hw (snd (kinetis_rtc_cancelalarm regfile_bus
          (snd (kinetis_rtc_setalarm regfile_bus cfg0 tp0 9 (boot_state rf0)))))) KINETIS_RTC_TAR
     = 100 \<and>
   fst (kinetis_rtc_cancelalarm regfile_bus
          (snd (up_rtc_initialize regfile_bus cfg0 (boot_state rf0)))) = NEG_ENODATA"
proof -
  have idle: "g_alarmcb (boot_state rf0 :: regfile rtc) = NULL"
    by (simp add: boot_state_def)
  have armed: "g_alarmcb (snd (kinetis_rtc_setalarm regfile_bus cfg0 tp0 9 (boot_state rf0))) \<noteq> NULL"
    by (simp add: kinetis_rtc_setalarm_def boot_state_def bus_simps NULL_def)
  show ?thesis
    using idle armed
      kinetis_rtc_cancelalarm_spec [of "boot_state rf0" regfile_bus
        "snd (kinetis_rtc_setalarm regfile_bus cfg0 tp0 9 (boot_state rf0))" cfg0 rf0]
    by (simp add: kinetis_rtc_setalarm_def boot_state_def bus_simps tp0_def)
qed

text \<open>
  C7: what the interrupt handler does on the register file, for every state and every
  callback body. When a callback is stored, the handler returns 0 and its final state
  is the one the callback's body produces when run once, on the state before the
  handler with the callback still stored, and after that run the stored callback is
  set to \<open>NULL\<close>, 0 is written to the alarm register and 0 to the interrupt-enable
  register. When none is stored, the body is not run and only the two writes are made.
  So in every case: the stored callback is \<open>NULL\<close> afterwards, the alarm register and
  the interrupt-enable register hold 0 and these two writes are the last two of the
  trace, and a following \<open>kinetis_rtc_setalarm\<close> returns \<^verbatim>\<open>OK\<close>. The record of
  calls grows by exactly the stored callback (provided the callback's own code leaves
  the record alone), and not at all when none was stored.
\<close>

theorem kinetis_rtc_interrupt_spec:
  "(g_alarmcb s \<noteq> NULL \<longrightarrow>
      kinetis_rtc_interrupt regfile_bus body s =
        (0, (let s' = body (g_alarmcb s) (s\<lparr>invoked := invoked s @ [g_alarmcb s]\<rparr>)
             in s'\<lparr>g_alarmcb := NULL,
                    hw := (hw s')\<lparr>mem := (mem (hw s'))(KINETIS_RTC_TAR := 0,
                                                        KINETIS_RTC_IER := 0),
                                 wlog := wlog (hw s') @ [(KINETIS_RTC_TAR, 0),
                                                         (KINETIS_RTC_IER, 0)]\<rparr>\<rparr>))) \<and>
   (g_alarmcb s = NULL \<longrightarrow>
      kinetis_rtc_interrupt regfile_bus body s =
        (0, s\<lparr>hw := (hw s)\<lparr>mem := (mem (hw s))(KINETIS_RTC_TAR := 0, KINETIS_RTC_IER := 0),
                           wlog := wlog (hw s) @ [(KINETIS_RTC_TAR, 0),
                                                  (KINETIS_RTC_IER, 0)]\<rparr>\<rparr>)) \<and>
   (g_alarmcb s \<noteq> NULL \<and> (\<forall>c t. invoked (body c t) = invoked t) \<longrightarrow>
      invoked (snd (kinetis_rtc_interrupt regfile_bus body s)) = invoked s @ [g_alarmcb s]) \<and>
   (g_alarmcb s = NULL \<longrightarrow>
      invoked (snd (kinetis_rtc_interrupt regfile_bus body s)) = invoked s) \<and>
   g_alarmcb (snd (kinetis_rtc_interrupt regfile_bus body s)) = NULL \<and>
   mem (hw (snd (kinetis_rtc_interrupt regfile_bus body s))) KINETIS_RTC_TAR = 0 \<and>
   mem (hw (snd (kinetis_rtc_interrupt regfile_bus body s))) KINETIS_RTC_IER = 0 \<and>
   (\<exists>ws. wlog (hw (snd (kinetis_rtc_interrupt regfile_bus body s))) =
           ws @ [(KINETIS_RTC_TAR, 0), (KINETIS_RTC_IER, 0)]) \<and>
   fst (kinetis_rtc_setalarm regfile_bus cfg tp cb
          (snd (kinetis_rtc_interrupt regfile_bus body s))) = OK"
  by (simp add: kinetis_rtc_interrupt_def kinetis_rtc_setalarm_def bus_simps)

text \<open>
  The handler run with \<open>probe_body\<close> on a slot armed with callback 9: the trace shows
  the two writes of \<open>kinetis_rtc_setalarm\<close>, then one write of the callback, which
  found 9 still stored, then the two writes of the handler. Run on the idle slot, the
  handler makes its two writes and the callback makes none.
\<close>

theorem kinetis_rtc_interrupt_spec_witness:
  "g_alarmcb (snd (kinetis_rtc_setalarm regfile_bus cfg0 tp0 9 (boot_state rf0))) \<noteq> NULL \<and>
   (\<forall>c t. invoked (probe_body c t) = invoked t) \<and>
   wlog (hw (snd (kinetis_rtc_interrupt regfile_bus probe_body
      (snd (kinetis_rtc_setalarm regfile_bus cfg0 tp0 9 (boot_state rf0)))))) =
     [(KINETIS_RTC_TAR, 100), (KINETIS_RTC_IER, 4), (KINETIS_RTC_TSR, 9),
      (KINETIS_RTC_TAR, 0), (KINETIS_RTC_IER, 0)] \<and>
   invoked (snd (kinetis_rtc_interrupt regfile_bus probe_body
      (snd (kinetis_rtc_setalarm regfile_bus cfg0 tp0 9 (boot_state rf0))))) = [9] \<and>
   g_alarmcb (snd (kinetis_rtc_interrupt regfile_bus probe_body
      (snd (kinetis_rtc_setalarm regfile_bus cfg0 tp0 9 (boot_state rf0))))) = NULL \<and>
   fst (kinetis_rtc_setalarm regfile_bus cfg0 tp0 11
     (snd (kinetis_rtc_interrupt regfile_bus probe_body
        (snd (kinetis_rtc_setalarm regfile_bus cfg0 tp0 9 (boot_state rf0)))))) = OK \<and>
   g_alarmcb (boot_state rf0) = NULL \<and>
   wlog (hw (snd (kinetis_rtc_interrupt regfile_bus probe_body (boot_state rf0)))) =
     [(KINETIS_RTC_TAR, 0), (KINETIS_RTC_IER, 0)] \<and>
   invoked (snd (kinetis_rtc_interrupt regfile_bus probe_body (boot_state rf0))) = []"
proof -
  let ?armed = "snd (kinetis_rtc_setalarm regfile_bus cfg0 tp0 9 (boot_state rf0))"
  have armed: "?armed =
      (boot_state rf0)
        \<lparr>g_alarmcb := 9,
         hw := \<lparr>mem = (\<lambda>_. 0)(KINETIS_RTC_TAR := 100, KINETIS_RTC_IER := 4),
                wlog = [(KINETIS_RTC_TAR, 100), (KINETIS_RTC_IER, 4)]\<rparr>\<rparr>"
    by (simp add: kinetis_rtc_setalarm_def boot_state_def bus_simps rf0_def cfg0_def tp0_def)
  have cb: "g_alarmcb ?armed = 9" and log: "invoked ?armed = []"
    unfolding armed by (simp_all add: boot_state_def)
  have stored: "g_alarmcb ?armed \<noteq> NULL"
    by (simp add: cb NULL_def)
  have quiet: "\<forall>c t. invoked (probe_body c t) = invoked t"
    by (simp add: probe_body_def)
  have idle: "g_alarmcb (boot_state rf0 :: regfile rtc) = NULL"
    and log0: "invoked (boot_state rf0 :: regfile rtc) = []"
    by (simp_all add: boot_state_def)
  note fired = kinetis_rtc_interrupt_spec [of ?armed probe_body cfg0 tp0 11]
  note spurious = kinetis_rtc_interrupt_spec [of "boot_state rf0" probe_body cfg0 tp0 11]
  from fired stored
  have "kinetis_rtc_interrupt regfile_bus probe_body ?armed =
        (0, (let s' = probe_body (g_alarmcb ?armed) (?armed\<lparr>invoked := invoked ?armed @ [g_alarmcb ?armed]\<rparr>)
             in s'\<lparr>g_alarmcb := NULL,
                    hw := (hw s')\<lparr>mem := (mem (hw s'))(KINETIS_RTC_TAR := 0,
                                                        KINETIS_RTC_IER := 0),
                                 wlog := wlog (hw s') @ [(KINETIS_RTC_TAR, 0),
                                                         (KINETIS_RTC_IER, 0)]\<rparr>\<rparr>))"
    by blast
  then have trace: "wlog (hw (snd (kinetis_rtc_interrupt regfile_bus probe_body ?armed))) =
     [(KINETIS_RTC_TAR, 100), (KINETIS_RTC_IER, 4), (KINETIS_RTC_TSR, 9),
      (KINETIS_RTC_TAR, 0), (KINETIS_RTC_IER, 0)]"
    unfolding armed by (simp add: probe_body_def regfile_bus_def Let_def boot_state_def)
  from fired stored quiet
  have "invoked (snd (kinetis_rtc_interrupt regfile_bus probe_body ?armed)) =
          invoked ?armed @ [g_alarmcb ?armed]"
    by blast
  then have once: "invoked (snd (kinetis_rtc_interrupt regfile_bus probe_body ?armed)) = [9]"
    by (simp only: cb log append_Nil)
  from fired
  have cleared: "g_alarmcb (snd (kinetis_rtc_interrupt regfile_bus probe_body ?armed)) = NULL"
    and again: "fst (kinetis_rtc_setalarm regfile_bus cfg0 tp0 11
                 (snd (kinetis_rtc_interrupt regfile_bus probe_body ?armed))) = OK"
    by blast+
  from spurious idle
  have "kinetis_rtc_interrupt regfile_bus probe_body (boot_state rf0) =
        (0, (boot_state rf0)
              \<lparr>hw := (hw (boot_state rf0))
                       \<lparr>mem := (mem (hw (boot_state rf0)))(KINETIS_RTC_TAR := 0,
                                                           KINETIS_RTC_IER := 0),
                        wlog := wlog (hw (boot_state rf0)) @ [(KINETIS_RTC_TAR, 0),
                                                              (KINETIS_RTC_IER, 0)]\<rparr>\<rparr>)"
    by blast
  then have trace0: "wlog (hw (snd (kinetis_rtc_interrupt regfile_bus probe_body (boot_state rf0)))) =
     [(KINETIS_RTC_TAR, 0), (KINETIS_RTC_IER, 0)]"
    by (simp add: boot_state_def rf0_def)
  from spurious idle
  have "invoked (snd (kinetis_rtc_interrupt regfile_bus probe_body (boot_state rf0))) =
          invoked (boot_state rf0)"
    by blast
  then have none: "invoked (snd (kinetis_rtc_interrupt regfile_bus probe_body (boot_state rf0))) = []"
    by (simp only: log0)
  from stored quiet trace once cleared again idle trace0 none show ?thesis by blast
qed

text \<open>
  C10: called with a \<open>NULL\<close> callback while no callback is stored,
  \<open>kinetis_rtc_setalarm\<close> returns \<^verbatim>\<open>OK\<close>, writes the alarm register and sets the
  alarm-interrupt-enable bit, and the stored callback is still \<open>NULL\<close>. So a second
  \<open>kinetis_rtc_setalarm\<close> right after it returns \<^verbatim>\<open>OK\<close> too and stores its callback,
  and if the interrupt handler runs instead, it calls nothing.
\<close>

theorem kinetis_rtc_setalarm_null:
  assumes "g_alarmcb s = NULL"
    and "s1 = snd (kinetis_rtc_setalarm regfile_bus cfg tp NULL s)"
  shows "fst (kinetis_rtc_setalarm regfile_bus cfg tp NULL s) = OK \<and>
         mem (hw s1) KINETIS_RTC_TAR = tv_sec tp \<and>
         mem (hw s1) KINETIS_RTC_IER = RTC_IER_TAIE cfg \<and>
         g_alarmcb s1 = NULL \<and>
         fst (kinetis_rtc_setalarm regfile_bus cfg tp2 cb2 s1) = OK \<and>
         g_alarmcb (snd (kinetis_rtc_setalarm regfile_bus cfg tp2 cb2 s1)) = cb2 \<and>
         invoked (snd (kinetis_rtc_interrupt regfile_bus body s1)) = invoked s1"
  using assms by (simp add: kinetis_rtc_interrupt_def kinetis_rtc_setalarm_def bus_simps)

theorem kinetis_rtc_setalarm_null_witness:
  "g_alarmcb (boot_state rf0) = NULL \<and>
   fst (kinetis_rtc_setalarm regfile_bus cfg0 tp0 NULL (boot_state rf0)) = OK \<and>
   mem (hw (snd (kinetis_rtc_setalarm regfile_bus cfg0 tp0 NULL (boot_state rf0)))) KINETIS_RTC_TAR
     = 100 \<and>
   mem (hw (snd (kinetis_rtc_setalarm regfile_bus cfg0 tp0 NULL (boot_state rf0)))) KINETIS_RTC_IER
     = 4 \<and>
   fst (kinetis_rtc_setalarm regfile_bus cfg0 tp0 9
          (snd (kinetis_rtc_setalarm regfile_bus cfg0 tp0 NULL (boot_state rf0)))) = OK \<and>
   invoked (snd (kinetis_rtc_interrupt regfile_bus (\<lambda>c t. t)
          (snd (kinetis_rtc_setalarm regfile_bus cfg0 tp0 NULL (boot_state rf0))))) = []"
proof -
  have idle: "g_alarmcb (boot_state rf0 :: regfile rtc) = NULL"
    by (simp add: boot_state_def)
  have log: "invoked (snd (kinetis_rtc_setalarm regfile_bus cfg0 tp0 NULL (boot_state rf0))) = []"
    by (simp add: kinetis_rtc_setalarm_def boot_state_def bus_simps)
  show ?thesis
    using idle log
      kinetis_rtc_setalarm_null [OF idle refl, of cfg0 tp0 tp0 9 "\<lambda>c t. t"]
    by (simp add: tp0_def cfg0_def)
qed

subsection \<open>The alarm invariant\<close>

lemma alarm_inv_initialize:
  "RTC_IER_TAIE cfg \<noteq> 0 \<Longrightarrow>
   alarm_inv cfg (snd (up_rtc_initialize regfile_bus cfg (boot_state h)))"
  by (simp add: alarm_inv_def alarm_armed_def up_rtc_initialize_def boot_state_def bus_simps)

lemma alarm_inv_setalarm:
  "RTC_IER_TAIE cfg \<noteq> 0 \<Longrightarrow> alarm_inv cfg s \<Longrightarrow> callback \<noteq> NULL \<Longrightarrow>
   alarm_inv cfg (snd (kinetis_rtc_setalarm regfile_bus cfg tp callback s))"
  by (simp add: alarm_inv_def alarm_armed_def kinetis_rtc_setalarm_def bus_simps)

lemma alarm_inv_cancelalarm:
  "alarm_inv cfg s \<Longrightarrow> alarm_inv cfg (snd (kinetis_rtc_cancelalarm regfile_bus s))"
  by (simp add: alarm_inv_def alarm_armed_def kinetis_rtc_cancelalarm_def bus_simps)

lemma alarm_inv_interrupt:
  "alarm_inv cfg (snd (kinetis_rtc_interrupt regfile_bus body s))"
  by (simp add: alarm_inv_def alarm_armed_def kinetis_rtc_interrupt_def bus_simps)

lemma alarm_inv_reachable:
  assumes "RTC_IER_TAIE cfg \<noteq> 0" and "reachable cfg body (\<lambda>cb. cb \<noteq> NULL) s"
  shows "alarm_inv cfg s"
  using assms(2)
proof (induction rule: reachable.induct)
  case (reach_init h)
  show ?case using assms(1) by (rule alarm_inv_initialize)
next
  case (reach_setalarm s callback tp)
  then show ?case using assms(1) by (simp add: alarm_inv_setalarm)
next
  case (reach_cancelalarm s)
  then show ?case by (simp add: alarm_inv_cancelalarm)
next
  case (reach_interrupt s)
  show ?case by (rule alarm_inv_interrupt)
qed

text \<open>
  C8, as stated, fails: \<open>kinetis_rtc_setalarm\<close> with a \<open>NULL\<close> callback on the freshly
  initialised driver leads to a state where no callback is stored although the alarm
  interrupt is enabled.
\<close>

theorem alarm_inv_counterexample:
  "reachable cfg0 (\<lambda>c t. t) (\<lambda>cb. True)
     (snd (kinetis_rtc_setalarm regfile_bus cfg0 tp0 NULL
        (snd (up_rtc_initialize regfile_bus cfg0 (boot_state rf0))))) \<and>
   \<not> alarm_inv cfg0
     (snd (kinetis_rtc_setalarm regfile_bus cfg0 tp0 NULL
        (snd (up_rtc_initialize regfile_bus cfg0 (boot_state rf0)))))"
proof
  show "reachable cfg0 (\<lambda>c t. t) (\<lambda>cb. True)
     (snd (kinetis_rtc_setalarm regfile_bus cfg0 tp0 NULL
        (snd (up_rtc_initialize regfile_bus cfg0 (boot_state rf0)))))"
    by (rule reach_setalarm [OF reach_init]) simp
  show "\<not> alarm_inv cfg0
     (snd (kinetis_rtc_setalarm regfile_bus cfg0 tp0 NULL
        (snd (up_rtc_initialize regfile_bus cfg0 (boot_state rf0)))))"
    by (simp add: alarm_inv_def alarm_armed_def kinetis_rtc_setalarm_def up_rtc_initialize_def
        boot_state_def bus_simps cfg0_def)
qed

text \<open>
  C8, amended: when the alarm-interrupt-enable constant is not 0 and every
  \<open>kinetis_rtc_setalarm\<close> call passes a callback other than \<open>NULL\<close>, then in every
  state reachable from the freshly initialised driver a callback is stored if and only
  if the alarm interrupt is enabled; and each of the three operations yields a state
  with this property when started in one (the interrupt handler from any state).
\<close>

theorem alarm_inv_nonnull:
  assumes "RTC_IER_TAIE cfg \<noteq> 0"
  shows "(reachable cfg body (\<lambda>cb. cb \<noteq> NULL) s \<longrightarrow> alarm_inv cfg s) \<and>
         (alarm_inv cfg t \<and> callback \<noteq> NULL \<longrightarrow>
            alarm_inv cfg (snd (kinetis_rtc_setalarm regfile_bus cfg tp callback t))) \<and>
         (alarm_inv cfg t \<longrightarrow> alarm_inv cfg (snd (kinetis_rtc_cancelalarm regfile_bus t))) \<and>
         alarm_inv cfg (snd (kinetis_rtc_interrupt regfile_bus body t))"
  using assms
  by (simp add: alarm_inv_reachable alarm_inv_setalarm alarm_inv_cancelalarm alarm_inv_interrupt)

theorem alarm_inv_nonnull_witness:
  "RTC_IER_TAIE cfg0 \<noteq> 0 \<and>
   reachable cfg0 (\<lambda>c t. t) (\<lambda>cb. cb \<noteq> NULL)
     (snd (kinetis_rtc_setalarm regfile_bus cfg0 tp0 9
        (snd (up_rtc_initialize regfile_bus cfg0 (boot_state rf0))))) \<and>
   alarm_inv cfg0
     (snd (kinetis_rtc_setalarm regfile_bus cfg0 tp0 9
        (snd (up_rtc_initialize regfile_bus cfg0 (boot_state rf0))))) \<and>
   alarm_inv cfg0 (snd (up_rtc_initialize regfile_bus cfg0 (boot_state rf0))) \<and>
   (9 :: alarmcb_t) \<noteq> NULL \<and>
   alarm_inv cfg0 (snd (kinetis_rtc_cancelalarm regfile_bus
     (snd (up_rtc_initialize regfile_bus cfg0 (boot_state rf0)))))"
proof -
  let ?init = "snd (up_rtc_initialize regfile_bus cfg0 (boot_state rf0))"
  have taie: "RTC_IER_TAIE cfg0 \<noteq> 0" by (simp add: cfg0_def)
  have nn: "(9 :: alarmcb_t) \<noteq> NULL" by (simp add: NULL_def)
  have r0: "reachable cfg0 (\<lambda>c t. t) (\<lambda>cb. cb \<noteq> NULL) ?init"
    by (rule reach_init)
  have r1: "reachable cfg0 (\<lambda>c t. t) (\<lambda>cb. cb \<noteq> NULL)
              (snd (kinetis_rtc_setalarm regfile_bus cfg0 tp0 9 ?init))"
    using r0 nn by (rule reach_setalarm)
  show ?thesis
    using taie nn r0 r1
      alarm_inv_nonnull [OF taie, of "\<lambda>c t. t" "snd (kinetis_rtc_setalarm regfile_bus cfg0 tp0 9 ?init)"
        ?init 9 tp0]
      alarm_inv_nonnull [OF taie, of "\<lambda>c t. t" ?init ?init 9 tp0]
    by simp
qed

subsection \<open>Writing the time and reading it back\<close>

text \<open>
  With any frequency below 1 GHz the quotient \<open>CONFIG_RTC_FREQUENCY / 1000000000\<close> is 0
  in integer arithmetic, so \<open>up_rtc_settime\<close> writes 0 to the prescaler register
  whatever the nanoseconds are.
\<close>

lemma up_rtc_settime_prescaler_zero:
  "CONFIG_RTC_FREQUENCY cfg < 1000000000 \<Longrightarrow>
   mem (hw (snd (up_rtc_settime regfile_bus cfg tp s))) KINETIS_RTC_TPR = 0"
  by (simp add: up_rtc_settime_def bus_simps)

text \<open>
  C3 fails on the code: at 32768 Hz and half a second, the inverse of the read path is
  \<open>500000000 div 30517 = 16384\<close> ticks, and \<open>up_rtc_settime\<close> writes 0.
\<close>

theorem up_rtc_settime_prescaler_eval:
  "mem (hw (snd (up_rtc_settime regfile_bus cfg0 tp0 (boot_state rf0)))) KINETIS_RTC_TPR = 0 \<and>
   nsec_to_ticks_spec (CONFIG_RTC_FREQUENCY cfg0) (unat (tv_nsec tp0)) = 16384"
  by (simp add: up_rtc_settime_def bus_simps cfg0_def tp0_def nsec_to_ticks_spec_def)

text \<open>On the register file the read loop exits after one round, with what the registers hold.\<close>

lemma gettime_loop_regfile:
  "gettime_loop regfile_bus h =
     Some ((mem h KINETIS_RTC_TSR, mem h KINETIS_RTC_TPR, mem h KINETIS_RTC_TPR), h)"
  by (subst gettime_loop.simps) (simp add: regfile_bus_def)

text \<open>
  What does hold of a write followed by a read with no tick in between: the seconds
  come back unchanged, through the low-resolution read and through the high-resolution
  one.
\<close>

lemma up_rtc_settime_time_seconds:
  "fst (up_rtc_time regfile_bus (snd (up_rtc_settime regfile_bus cfg tp s))) = tv_sec tp"
  by (simp add: up_rtc_time_def up_rtc_settime_def bus_simps)

lemma up_rtc_settime_gettime_seconds:
  "\<exists>tp' s'. up_rtc_gettime regfile_bus cfg (snd (up_rtc_settime regfile_bus cfg tp s)) =
             Some ((OK, tp'), s') \<and>
           tv_sec tp' = tv_sec tp \<and>
           tv_nsec tp' = tv_nsec tp * of_nat (CONFIG_RTC_FREQUENCY cfg div 1000000000)
                                     * of_nat (1000000000 div CONFIG_RTC_FREQUENCY cfg)"
  by (simp add: up_rtc_gettime_def up_rtc_settime_def gettime_loop_regfile
      enter_critical_section_def leave_critical_section_def Let_def)
     (simp add: regfile_bus_def)

text \<open>
  C2 fails on the code in the high-resolution mode: at 32768 Hz, writing 100 s and
  500000000 ns and reading back at once gives 100 s and 0 ns, half a second away from
  what was written, where one tick is 30517 ns.
\<close>

theorem up_rtc_settime_gettime_eval:
  "map_option fst (up_rtc_gettime regfile_bus cfg0
      (snd (up_rtc_settime regfile_bus cfg0 tp0 (boot_state rf0)))) =
     Some (OK, \<lparr>tv_sec = 100, tv_nsec = 0\<rparr>) \<and>
   tp0 = \<lparr>tv_sec = 100, tv_nsec = 500000000\<rparr> \<and>
   (1000000000 :: nat) div CONFIG_RTC_FREQUENCY cfg0 = 30517"
  by (simp add: up_rtc_gettime_def up_rtc_settime_def gettime_loop_regfile
      enter_critical_section_def leave_critical_section_def Let_def tp0_def)
     (simp add: regfile_bus_def cfg0_def)

subsection \<open>The high-resolution read on a running counter\<close>

text \<open>Comparing two register values that are below \<open>2 ^ 32\<close> compares the numbers.\<close>

lemma u32_of_nat_le:
  "a < 2 ^ 32 \<Longrightarrow> b < 2 ^ 32 \<Longrightarrow> (of_nat a \<le> (of_nat b :: u32)) = (a \<le> b)"
  by (simp add: word_le_nat_alt unat_of_nat)

lemma u32_of_nat_less:
  "a < 2 ^ 32 \<Longrightarrow> b < 2 ^ 32 \<Longrightarrow> (of_nat a < (of_nat b :: u32)) = (a < b)"
  by (simp add: word_less_nat_alt unat_of_nat)

text \<open>One round of the loop on the counter: three accesses, \<open>k\<close>, \<open>k + 1\<close>, \<open>k + 2\<close>.\<close>

lemma counter_round:
  "(let (prescaler, h1) = getreg32 (counter_bus F clk) KINETIS_RTC_TPR k;
        (seconds, h2) = getreg32 (counter_bus F clk) KINETIS_RTC_TSR h1;
        (prescaler2, h3) = getreg32 (counter_bus F clk) KINETIS_RTC_TPR h2
    in if prescaler2 < prescaler then f (counter_bus F clk) h3
       else Some ((seconds, prescaler, prescaler2), h3)) =
   (if (of_nat (clk (k + 2) mod F) :: u32) < of_nat (clk k mod F)
    then f (counter_bus F clk) (k + 3)
    else Some ((of_nat (clk (k + 1) div F), of_nat (clk k mod F),
                of_nat (clk (k + 2) mod F)), k + 3))"
  by (simp add: counter_bus_def numeral_3_eq_3)

lemma gettime_loop_counter_unfold:
  "gettime_loop (counter_bus F clk) k =
     (if (of_nat (clk (k + 2) mod F) :: u32) < of_nat (clk k mod F)
      then gettime_loop (counter_bus F clk) (k + 3)
      else Some ((of_nat (clk (k + 1) div F), of_nat (clk k mod F),
                  of_nat (clk (k + 2) mod F)), k + 3))"
  by (subst gettime_loop.simps) (rule counter_round)

text \<open>
  Whenever the loop exits, what it returns was read in one round \<open>j\<close>, \<open>j + 1\<close>,
  \<open>j + 2\<close> in which the second prescaler reading is not below the first.
\<close>

lemma gettime_loop_counter_result:
  assumes "gettime_loop (counter_bus F clk) k = Some y"
  shows "\<exists>j\<ge>k. y = ((of_nat (clk (j + 1) div F), of_nat (clk j mod F),
                       of_nat (clk (j + 2) mod F)), j + 3)
           \<and> (of_nat (clk j mod F) :: u32) \<le> of_nat (clk (j + 2) mod F)"
proof -
  let ?Q = "\<lambda>k y. \<exists>j\<ge>k. y = ((of_nat (clk (j + 1) div F), of_nat (clk j mod F),
                               of_nat (clk (j + 2) mod F)), j + 3)
                \<and> (of_nat (clk j mod F) :: u32) \<le> of_nat (clk (j + 2) mod F)"
  have "b = counter_bus F clk \<longrightarrow> ?Q h r" if "gettime_loop b h = Some r" for b h r
  proof (rule gettime_loop.raw_induct
      [where P = "\<lambda>b h r. b = counter_bus F clk \<longrightarrow> ?Q h r", OF _ that])
    fix f :: "nat bus \<Rightarrow> nat \<Rightarrow> ((u32 \<times> u32 \<times> u32) \<times> nat) option" and b h r
    assume IH: "\<And>b h r. f b h = Some r \<Longrightarrow> b = counter_bus F clk \<longrightarrow> ?Q h r"
      and step: "(let (prescaler, h1) = getreg32 b KINETIS_RTC_TPR h;
                      (seconds, h2) = getreg32 b KINETIS_RTC_TSR h1;
                      (prescaler2, h3) = getreg32 b KINETIS_RTC_TPR h2
                  in if prescaler2 < prescaler then f b h3
                     else Some ((seconds, prescaler, prescaler2), h3)) = Some r"
    show "b = counter_bus F clk \<longrightarrow> ?Q h r"
    proof
      assume b: "b = counter_bus F clk"
      note round = step [unfolded b counter_round]
      show "?Q h r"
      proof (cases "(of_nat (clk (h + 2) mod F) :: u32) < of_nat (clk h mod F)")
        case True
        with round have "f b (h + 3) = Some r"
          unfolding b by (simp only: if_True)
        with IH b have "?Q (h + 3) r" by blast
        then obtain j where "h + 3 \<le> j"
          "r = ((of_nat (clk (j + 1) div F), of_nat (clk j mod F),
                 of_nat (clk (j + 2) mod F)), j + 3)"
          "(of_nat (clk j mod F) :: u32) \<le> of_nat (clk (j + 2) mod F)"
          by blast
        moreover from this(1) have "h \<le> j" by simp
        ultimately show ?thesis by blast
      next
        case False
        with round have "Some ((of_nat (clk (h + 1) div F), of_nat (clk h mod F),
                                of_nat (clk (h + 2) mod F)), h + 3) = Some r"
          by (simp only: if_False)
        then have "r = ((of_nat (clk (h + 1) div F), of_nat (clk h mod F),
                         of_nat (clk (h + 2) mod F)), h + 3)"
          by simp
        moreover from False have "(of_nat (clk h mod F) :: u32) \<le> of_nat (clk (h + 2) mod F)"
          by (simp add: not_less)
        ultimately show ?thesis by blast
      qed
    qed
  qed
  with assms show ?thesis by blast
qed

text \<open>
  The arithmetic behind the loop. Seconds read at tick \<open>T2\<close> and prescaler read at tick
  \<open>T1\<close>, with a later prescaler reading at \<open>T3\<close> that is not smaller: the pair is the
  counter's value at some tick between \<open>T1\<close> and \<open>T3\<close>.
\<close>

lemma no_tear_arith:
  fixes F :: nat
  assumes F: "0 < F" and "T1 \<le> T2" and "T2 \<le> T3" and "T1 mod F \<le> T3 mod F"
  shows "\<exists>T. T1 \<le> T \<and> T \<le> T3 \<and> T div F = T2 div F \<and> T mod F = T1 mod F"
proof -
  define T where "T = T2 div F * F + T1 mod F"
  have m: "T1 mod F < F" using F by simp
  have d: "T div F = T2 div F" using m by (simp add: T_def)
  have r: "T mod F = T1 mod F" using m by (simp add: T_def)
  have "T1 div F \<le> T2 div F" using assms(2) by (rule div_le_mono)
  then have "T1 div F * F \<le> T2 div F * F" by (rule mult_le_mono1)
  then have "T1 div F * F + T1 mod F \<le> T2 div F * F + T1 mod F" by (rule add_le_mono1)
  then have lo: "T1 \<le> T" unfolding T_def by (simp only: div_mult_mod_eq)
  have le23: "T2 div F \<le> T3 div F" using assms(3) by (rule div_le_mono)
  have hi: "T \<le> T3"
  proof (cases "T2 div F = T3 div F")
    case True
    then have "T = T3 div F * F + T1 mod F" by (simp add: T_def)
    also have "\<dots> \<le> T3 div F * F + T3 mod F" using assms(4) by (rule add_left_mono)
    also have "\<dots> = T3" by (rule div_mult_mod_eq)
    finally show ?thesis .
  next
    case False
    with le23 have "Suc (T2 div F) \<le> T3 div F" by simp
    then have "Suc (T2 div F) * F \<le> T3 div F * F" by (rule mult_le_mono1)
    moreover have "T < Suc (T2 div F) * F" using m by (simp add: T_def)
    moreover have "T3 div F * F \<le> T3" by simp
    ultimately show ?thesis by linarith
  qed
  from lo hi d r show ?thesis by blast
qed

lemma same_div_mod_le:
  fixes F :: nat
  assumes "T1 \<le> T3" and "T1 div F = T3 div F"
  shows "T1 mod F \<le> T3 mod F"
proof -
  have a: "T1 div F * F + T1 mod F = T1" by (rule div_mult_mod_eq)
  have b: "T1 div F * F + T3 mod F = T3" unfolding assms(2) by (rule div_mult_mod_eq)
  from a b assms(1) show ?thesis by linarith
qed

lemma wrap_seen:
  fixes F :: nat
  assumes "T1 \<le> T3" and "T3 mod F < T1 mod F"
  shows "T1 div F < T3 div F"
proof (rule ccontr)
  assume "\<not> T1 div F < T3 div F"
  moreover have "T1 div F \<le> T3 div F" using assms(1) by (rule div_le_mono)
  ultimately have "T1 div F = T3 div F" by simp
  with assms(1) have "T1 mod F \<le> T3 mod F" by (rule same_div_mod_le)
  with assms(2) show False by simp
qed

text \<open>The two sample traces.\<close>

lemma mono_clk_wrap: "mono clk_wrap"
  by (simp add: mono_def clk_wrap_def)

lemma gettime_clk_wrap:
  "up_rtc_gettime (counter_bus 32768 clk_wrap) cfg0 (boot_state 0) =
     Some ((OK, \<lparr>tv_sec = 1, tv_nsec = 30517\<rparr>), boot_state 6)"
  apply (simp add: up_rtc_gettime_def bus_simps boot_state_def)
  apply (subst gettime_loop_counter_unfold)
  apply (subst gettime_loop_counter_unfold)
  apply (simp add: clk_wrap_def cfg0_def bus_simps)
  done

lemma clk_stall_first: "clk_stall (3 * i) = i * 32768 + 32767"
  by (simp add: clk_stall_def)

lemma clk_stall_second: "clk_stall (3 * i + 1) = i * 32768 + 32767"
proof -
  have "(3 * i + 1) div 3 = i" "(3 * i + 1) mod 3 = 1" by presburger+
  then show ?thesis unfolding clk_stall_def by simp
qed

lemma clk_stall_third: "clk_stall (3 * i + 2) = (i + 1) * 32768"
proof -
  have "(3 * i + 2) div 3 = i" "(3 * i + 2) mod 3 = 2" by presburger+
  then show ?thesis unfolding clk_stall_def by simp
qed

lemma clk_stall_step: "clk_stall n \<le> clk_stall (Suc n)"
proof -
  have "\<exists>i. n = 3 * i \<or> n = 3 * i + 1 \<or> n = 3 * i + 2" by presburger
  then obtain i where "n = 3 * i \<or> n = 3 * i + 1 \<or> n = 3 * i + 2" ..
  then consider "n = 3 * i" | "n = 3 * i + 1" | "n = 3 * i + 2" by blast
  then show ?thesis
  proof cases
    case 1
    have "clk_stall (Suc n) = clk_stall (3 * i + 1)" using 1 by simp
    moreover have "clk_stall n = clk_stall (3 * i)" using 1 by simp
    ultimately show ?thesis by (simp only: clk_stall_first clk_stall_second)
  next
    case 2
    have "clk_stall (Suc n) = clk_stall (3 * i + 2)" using 2 by simp
    moreover have "clk_stall n = clk_stall (3 * i + 1)" using 2 by simp
    ultimately have "clk_stall (Suc n) = (i + 1) * 32768" "clk_stall n = i * 32768 + 32767"
      by (simp_all only: clk_stall_second clk_stall_third)
    then show ?thesis by simp
  next
    case 3
    have "Suc n = 3 * (i + 1)" using 3 by simp
    then have "clk_stall (Suc n) = clk_stall (3 * (i + 1))" by (rule arg_cong)
    moreover have "clk_stall n = clk_stall (3 * i + 2)" using 3 by simp
    ultimately have "clk_stall (Suc n) = (i + 1) * 32768 + 32767" "clk_stall n = (i + 1) * 32768"
      by (simp_all only: clk_stall_first clk_stall_third)
    then show ?thesis by simp
  qed
qed

lemma mono_clk_stall: "mono clk_stall"
proof (rule monoI)
  fix i j :: nat
  assume "i \<le> j"
  with clk_stall_step show "clk_stall i \<le> clk_stall j"
    by (rule lift_Suc_mono_le)
qed

lemma clk_stall_wraps: "wraps_at_most_once_per_iteration 32768 clk_stall 0"
proof -
  have "clk_stall (0 + 3 * i + 3) div 32768 \<le> clk_stall (0 + 3 * i) div 32768 + 1" for i
  proof -
    have "0 + 3 * i + 3 = 3 * (i + 1)" by simp
    then have "clk_stall (0 + 3 * i + 3) = (i + 1) * 32768 + 32767"
      by (simp only: clk_stall_first)
    moreover have "clk_stall (0 + 3 * i) = i * 32768 + 32767"
      by (simp only: clk_stall_first add_0)
    ultimately show ?thesis by simp
  qed
  then show ?thesis unfolding wraps_at_most_once_per_iteration_def by blast
qed

text \<open>On \<open>clk_stall\<close> no round that starts at a multiple of 3 ever leads to an exit.\<close>

lemma gettime_loop_clk_stall:
  "gettime_loop (counter_bus 32768 clk_stall) (3 * i) \<noteq> Some r"
proof
  assume a: "gettime_loop (counter_bus 32768 clk_stall) (3 * i) = Some r"
  let ?P = "\<lambda>b h (r :: (u32 \<times> u32 \<times> u32) \<times> nat).
              b = counter_bus 32768 clk_stall \<longrightarrow> (\<forall>i. h \<noteq> 3 * i)"
  have "?P (counter_bus 32768 clk_stall) (3 * i) r"
  proof (rule gettime_loop.raw_induct [where P = ?P, OF _ a])
    fix f :: "nat bus \<Rightarrow> nat \<Rightarrow> ((u32 \<times> u32 \<times> u32) \<times> nat) option" and b h r
    assume IH: "\<And>b h r. f b h = Some r \<Longrightarrow> ?P b h r"
      and step: "(let (prescaler, h1) = getreg32 b KINETIS_RTC_TPR h;
                      (seconds, h2) = getreg32 b KINETIS_RTC_TSR h1;
                      (prescaler2, h3) = getreg32 b KINETIS_RTC_TPR h2
                  in if prescaler2 < prescaler then f b h3
                     else Some ((seconds, prescaler, prescaler2), h3)) = Some r"
    show "?P b h r"
    proof (intro impI allI notI)
      fix i assume b: "b = counter_bus 32768 clk_stall" and h: "h = 3 * i"
      have "(of_nat (clk_stall (3 * i + 2) mod 32768) :: u32)
              < of_nat (clk_stall (3 * i) mod 32768)"
        by (simp only: clk_stall_first clk_stall_third) simp
      with step have "f b (3 * i + 3) = Some r"
        unfolding b h counter_round by (simp only: if_True)
      moreover have "3 * i + 3 = 3 * (i + 1)" by simp
      ultimately have "f b (3 * (i + 1)) = Some r" by (simp only:)
      from IH [OF this] b show False by blast
    qed
  qed
  then show False by simp
qed

text \<open>
  When the seconds go up by at most one over the six register accesses of the first two
  rounds, the loop exits in the first or in the second round.
\<close>

lemma gettime_two_rounds:
  assumes "0 < F" and "F \<le> 2 ^ 32" and "mono clk"
    and "clk (hw s + 5) div F \<le> clk (hw s) div F + 1"
  shows "(\<exists>seconds prescaler prescaler2 k'.
            gettime_loop (counter_bus F clk) (hw s) = Some ((seconds, prescaler, prescaler2), k') \<and>
            prescaler \<le> prescaler2 \<and> k' \<le> hw s + 6) \<and>
         (\<exists>r. up_rtc_gettime (counter_bus F clk) cfg s = Some r)"
proof -
  let ?k = "hw s"
  have lt: "clk i mod F < 2 ^ 32" for i
    using assms(1,2) by (meson less_le_trans mod_less_divisor)
  have cmp: "((of_nat (clk i mod F) :: u32) < of_nat (clk j mod F)) = (clk i mod F < clk j mod F)"
    for i j by (rule u32_of_nat_less [OF lt lt])
  have loop: "\<exists>seconds prescaler prescaler2 k'.
            gettime_loop (counter_bus F clk) ?k = Some ((seconds, prescaler, prescaler2), k') \<and>
            prescaler \<le> prescaler2 \<and> k' \<le> ?k + 6"
  proof (cases "clk (?k + 2) mod F < clk ?k mod F")
    case False
    then have nf: "\<not> (of_nat (clk (?k + 2) mod F) :: u32) < of_nat (clk ?k mod F)"
      by (simp add: cmp)
    have "gettime_loop (counter_bus F clk) ?k =
            Some ((of_nat (clk (?k + 1) div F), of_nat (clk ?k mod F),
                   of_nat (clk (?k + 2) mod F)), ?k + 3)"
      by (subst gettime_loop_counter_unfold) (simp only: nf if_False)
    then show ?thesis using nf by (simp add: not_less)
  next
    case True
    then have first: "(of_nat (clk (?k + 2) mod F) :: u32) < of_nat (clk ?k mod F)"
      by (simp add: cmp)
    have "clk ?k \<le> clk (?k + 2)" using assms(3) by (simp add: monoD)
    from wrap_seen [OF this True] have a: "clk ?k div F + 1 \<le> clk (?k + 2) div F" by simp
    have m: "clk (?k + 2) \<le> clk (?k + 3)" "clk (?k + 3) \<le> clk (?k + 5)"
      using assms(3) by (simp_all add: monoD)
    have "clk (?k + 2) div F \<le> clk (?k + 3) div F" "clk (?k + 3) div F \<le> clk (?k + 5) div F"
      using m by (simp_all add: div_le_mono)
    with a assms(4) have "clk (?k + 3) div F = clk (?k + 5) div F" by linarith
    with m(2) have "clk (?k + 3) mod F \<le> clk (?k + 5) mod F" by (rule same_div_mod_le)
    moreover have "?k + 3 + 2 = ?k + 5" by simp
    ultimately have "\<not> clk (?k + 3 + 2) mod F < clk (?k + 3) mod F"
      by (simp only: not_less)
    then have second: "\<not> (of_nat (clk (?k + 3 + 2) mod F) :: u32) < of_nat (clk (?k + 3) mod F)"
      by (simp add: cmp)
    have "gettime_loop (counter_bus F clk) ?k = gettime_loop (counter_bus F clk) (?k + 3)"
      by (subst gettime_loop_counter_unfold) (simp only: first if_True)
    also have "\<dots> = Some ((of_nat (clk (?k + 3 + 1) div F), of_nat (clk (?k + 3) mod F),
                             of_nat (clk (?k + 3 + 2) mod F)), ?k + 3 + 3)"
      by (subst gettime_loop_counter_unfold) (simp only: second if_False)
    finally show ?thesis using second by (simp add: not_less)
  qed
  then have "\<exists>r. up_rtc_gettime (counter_bus F clk) cfg s = Some r"
    by (auto simp: up_rtc_gettime_def bus_simps)
  with loop show ?thesis by blast
qed

text \<open>
  C1: on a counter that never runs backwards, with \<open>F\<close> ticks to the second
  (\<open>F\<close> fits the 32-bit prescaler register), however many ticks pass between the
  register accesses and whether or not the prescaler wraps between them: if
  \<open>up_rtc_gettime\<close> returns, it returns \<^verbatim>\<open>OK\<close> and the time of one tick \<open>T\<close> that
  the counter went through during the call, between the first access of the call and
  its last one. The seconds are those of \<open>T\<close>, the fraction is that of \<open>T\<close> (below
  \<open>F\<close>), and the nanoseconds are that fraction times \<open>1000000000 / CONFIG_RTC_FREQUENCY\<close>.
  The round of the loop that was accepted is one whose second prescaler reading is not
  below its first. And the call does return when the prescaler wraps at most once over
  the first two rounds, wherever between the register accesses the wrap falls.
\<close>

theorem up_rtc_gettime_no_tear:
  assumes "0 < F" and "F \<le> 2 ^ 32" and "mono clk"
  shows "(up_rtc_gettime (counter_bus F clk) cfg s = Some ((rv, tp), s') \<longrightarrow>
           rv = OK \<and> hw s + 3 \<le> hw s' \<and>
           (\<exists>T. clk (hw s) \<le> T \<and> T \<le> clk (hw s' - 1) \<and> T mod F < F \<and>
                tv_sec tp = of_nat (T div F) \<and>
                tv_nsec tp = of_nat (T mod F) * of_nat (1000000000 div CONFIG_RTC_FREQUENCY cfg)) \<and>
           (\<exists>seconds prescaler prescaler2.
                gettime_loop (counter_bus F clk) (hw s) =
                  Some ((seconds, prescaler, prescaler2), hw s') \<and>
                prescaler \<le> prescaler2 \<and> tv_sec tp = seconds)) \<and>
         (clk (hw s + 5) div F \<le> clk (hw s) div F + 1 \<longrightarrow>
           (\<exists>r. up_rtc_gettime (counter_bus F clk) cfg s = Some r))"
proof (rule conjI [OF impI impI])
  assume ret: "up_rtc_gettime (counter_bus F clk) cfg s = Some ((rv, tp), s')"
  then obtain y where
    loop: "gettime_loop (counter_bus F clk) (hw s) = Some y"
    and res: "rv = OK" "tv_sec tp = fst (fst y)"
      "tv_nsec tp = fst (snd (fst y)) * of_nat (1000000000 div CONFIG_RTC_FREQUENCY cfg)"
      "hw s' = snd y"
    by (auto simp: up_rtc_gettime_def bus_simps split: option.splits prod.splits)
  from gettime_loop_counter_result [OF loop] obtain j where
    j: "hw s \<le> j"
      "y = ((of_nat (clk (j + 1) div F), of_nat (clk j mod F), of_nat (clk (j + 2) mod F)), j + 3)"
      "(of_nat (clk j mod F) :: u32) \<le> of_nat (clk (j + 2) mod F)"
    by blast
  have lt: "clk j mod F < 2 ^ 32" "clk (j + 2) mod F < 2 ^ 32"
    using assms(1,2) by (meson less_le_trans mod_less_divisor)+
  from j(3) have fr: "clk j mod F \<le> clk (j + 2) mod F"
    by (simp only: u32_of_nat_le [OF lt])
  have "clk j \<le> clk (j + 1)" "clk (j + 1) \<le> clk (j + 2)"
    using assms(3) by (simp_all add: monoD)
  from no_tear_arith [OF assms(1) this fr] obtain T where
    T: "clk j \<le> T" "T \<le> clk (j + 2)" "T div F = clk (j + 1) div F" "T mod F = clk j mod F"
    by blast
  have "clk (hw s) \<le> clk j" using assms(3) j(1) by (simp add: monoD)
  with T res j(2) assms(1)
  have tick: "rv = OK \<and> hw s + 3 \<le> hw s' \<and>
         (\<exists>T. clk (hw s) \<le> T \<and> T \<le> clk (hw s' - 1) \<and> T mod F < F \<and>
              tv_sec tp = of_nat (T div F) \<and>
              tv_nsec tp = of_nat (T mod F) * of_nat (1000000000 div CONFIG_RTC_FREQUENCY cfg))"
    by (intro conjI exI [of _ T]) (use j(1) in simp_all)
  from loop res j(2,3)
  have "\<exists>seconds prescaler prescaler2.
          gettime_loop (counter_bus F clk) (hw s) = Some ((seconds, prescaler, prescaler2), hw s') \<and>
          prescaler \<le> prescaler2 \<and> tv_sec tp = seconds"
    by simp
  with tick show "rv = OK \<and> hw s + 3 \<le> hw s' \<and>
           (\<exists>T. clk (hw s) \<le> T \<and> T \<le> clk (hw s' - 1) \<and> T mod F < F \<and>
                tv_sec tp = of_nat (T div F) \<and>
                tv_nsec tp = of_nat (T mod F) * of_nat (1000000000 div CONFIG_RTC_FREQUENCY cfg)) \<and>
           (\<exists>seconds prescaler prescaler2.
                gettime_loop (counter_bus F clk) (hw s) =
                  Some ((seconds, prescaler, prescaler2), hw s') \<and>
                prescaler \<le> prescaler2 \<and> tv_sec tp = seconds)"
    by blast
next
  assume "clk (hw s + 5) div F \<le> clk (hw s) div F + 1"
  with assms show "\<exists>r. up_rtc_gettime (counter_bus F clk) cfg s = Some r"
    using gettime_two_rounds by blast
qed

theorem up_rtc_gettime_no_tear_witness:
  "(0::nat) < 32768 \<and> (32768::nat) \<le> 2 ^ 32 \<and> mono clk_wrap \<and>
   clk_wrap (hw (boot_state 0 :: nat rtc) + 5) div 32768
     \<le> clk_wrap (hw (boot_state 0 :: nat rtc)) div 32768 + 1 \<and>
   up_rtc_gettime (counter_bus 32768 clk_wrap) cfg0 (boot_state 0) =
     Some ((OK, \<lparr>tv_sec = 1, tv_nsec = 30517\<rparr>), boot_state 6) \<and>
   (\<exists>T. clk_wrap 0 \<le> T \<and> T \<le> clk_wrap 5 \<and> T mod 32768 < 32768 \<and>
        (1 :: u32) = of_nat (T div 32768) \<and>
        (30517 :: u32) = of_nat (T mod 32768) * of_nat (1000000000 div 32768)) \<and>
   (\<exists>r. up_rtc_gettime (counter_bus 32768 clk_wrap) cfg0 (boot_state 0) = Some r)"
proof -
  have h1: "(0::nat) < 32768" by simp
  have h2: "(32768::nat) \<le> 2 ^ 32" by simp
  have h4: "clk_wrap (hw (boot_state 0 :: nat rtc) + 5) div 32768
              \<le> clk_wrap (hw (boot_state 0 :: nat rtc)) div 32768 + 1"
    by (simp add: clk_wrap_def boot_state_def)
  note inst = up_rtc_gettime_no_tear [OF h1 h2 mono_clk_wrap, of cfg0 "boot_state 0" OK
      "\<lparr>tv_sec = 1, tv_nsec = 30517\<rparr>" "boot_state 6"]
  from inst gettime_clk_wrap
  have "\<exists>T. clk_wrap (hw (boot_state 0 :: nat rtc)) \<le> T \<and>
            T \<le> clk_wrap (hw (boot_state 6 :: nat rtc) - 1) \<and> T mod 32768 < 32768 \<and>
            tv_sec \<lparr>tv_sec = 1, tv_nsec = 30517\<rparr> = of_nat (T div 32768) \<and>
            tv_nsec \<lparr>tv_sec = 1, tv_nsec = 30517\<rparr> =
              of_nat (T mod 32768) * of_nat (1000000000 div CONFIG_RTC_FREQUENCY cfg0)"
    by blast
  then have tick: "\<exists>T. clk_wrap 0 \<le> T \<and> T \<le> clk_wrap 5 \<and> T mod 32768 < 32768 \<and>
        (1 :: u32) = of_nat (T div 32768) \<and>
        (30517 :: u32) = of_nat (T mod 32768) * of_nat (1000000000 div 32768)"
    by (simp add: boot_state_def cfg0_def)
  from inst h4
  have "\<exists>r. up_rtc_gettime (counter_bus 32768 clk_wrap) cfg0 (boot_state 0) = Some r"
    by blast
  with h1 h2 mono_clk_wrap h4 gettime_clk_wrap tick show ?thesis by blast
qed

text \<open>
  C9, as stated, fails: \<open>clk_stall\<close> never runs backwards and wraps exactly once in
  every round, and on it the loop never exits, so \<open>up_rtc_gettime\<close> does not return.
\<close>

theorem gettime_loop_termination_counterexample:
  "mono clk_stall \<and> wraps_at_most_once_per_iteration 32768 clk_stall 0 \<and>
   gettime_loop (counter_bus 32768 clk_stall) 0 = None \<and>
   up_rtc_gettime (counter_bus 32768 clk_stall) cfg0 (boot_state 0) = None"
proof -
  have "gettime_loop (counter_bus 32768 clk_stall) (3 * 0) = None"
    using gettime_loop_clk_stall [of 0]
    by (cases "gettime_loop (counter_bus 32768 clk_stall) (3 * 0)") auto
  then have n: "gettime_loop (counter_bus 32768 clk_stall) 0 = None" by simp
  then have "up_rtc_gettime (counter_bus 32768 clk_stall) cfg0 (boot_state 0) = None"
    by (simp add: up_rtc_gettime_def bus_simps boot_state_def)
  with n mono_clk_stall clk_stall_wraps show ?thesis by simp
qed

text \<open>
  The loop exits at the latest in the first round whose second prescaler reading is not
  below its first, whatever happened in the rounds before.
\<close>

lemma gettime_loop_exit_by_round:
  assumes "\<not> (of_nat (clk (k + 3 * n + 2) mod F) :: u32) < of_nat (clk (k + 3 * n) mod F)"
  shows "\<exists>seconds prescaler prescaler2 k'.
           gettime_loop (counter_bus F clk) k = Some ((seconds, prescaler, prescaler2), k') \<and>
           prescaler \<le> prescaler2 \<and> k' \<le> k + 3 * n + 3"
  using assms
proof (induction n arbitrary: k)
  case 0
  then have nf: "\<not> (of_nat (clk (k + 2) mod F) :: u32) < of_nat (clk k mod F)" by simp
  have "gettime_loop (counter_bus F clk) k =
          Some ((of_nat (clk (k + 1) div F), of_nat (clk k mod F),
                 of_nat (clk (k + 2) mod F)), k + 3)"
    by (subst gettime_loop_counter_unfold) (simp only: nf if_False)
  then show ?case using nf by (simp add: not_less)
next
  case (Suc n)
  show ?case
  proof (cases "(of_nat (clk (k + 2) mod F) :: u32) < of_nat (clk k mod F)")
    case False
    have "gettime_loop (counter_bus F clk) k =
            Some ((of_nat (clk (k + 1) div F), of_nat (clk k mod F),
                   of_nat (clk (k + 2) mod F)), k + 3)"
      by (subst gettime_loop_counter_unfold) (simp only: False if_False)
    then show ?thesis using False by (simp add: not_less)
  next
    case True
    have next_round: "gettime_loop (counter_bus F clk) k = gettime_loop (counter_bus F clk) (k + 3)"
      by (subst gettime_loop_counter_unfold) (simp only: True if_True)
    have shift: "k + 3 * Suc n = k + 3 + 3 * n" by simp
    note later = Suc.prems [unfolded shift]
    from Suc.IH [OF later] obtain seconds prescaler prescaler2 k' where
      "gettime_loop (counter_bus F clk) (k + 3) = Some ((seconds, prescaler, prescaler2), k')"
      "prescaler \<le> prescaler2" "k' \<le> k + 3 + 3 * n + 3"
      by blast
    moreover from this(3) have "k' \<le> k + 3 * Suc n + 3" by simp
    ultimately show ?thesis unfolding next_round by blast
  qed
qed

lemma mono_clk_late: "mono clk_late"
proof (rule monoI)
  fix i j :: nat
  assume le: "i \<le> j"
  have five: "clk_stall 5 = 65536"
    using clk_stall_third [of 1] by simp
  show "clk_late i \<le> clk_late j"
  proof (cases "j < 6")
    case True
    with le have "i < 6" by simp
    with True show ?thesis
      using monoD [OF mono_clk_stall le] by (simp add: clk_late_def)
  next
    case False
    show ?thesis
    proof (cases "i < 6")
      case True
      then have "i \<le> 5" by simp
      from monoD [OF mono_clk_stall this] have "clk_stall i \<le> 65536" by (simp only: five)
      with True False show ?thesis by (simp add: clk_late_def)
    next
      case i: False
      with False le show ?thesis by (simp add: clk_late_def)
    qed
  qed
qed

text \<open>
  C9, amended: on a counter that never runs backwards, if some round \<open>n\<close> of the loop
  has no wrap between its two prescaler reads (the seconds are the same at both), the
  loop exits after at most \<open>n + 1\<close> rounds with a second prescaler reading that is not
  below the first, and \<open>up_rtc_gettime\<close> returns. The rounds before round \<open>n\<close> may
  all have wrapped.
\<close>

theorem gettime_loop_terminates:
  assumes "0 < F" and "F \<le> 2 ^ 32" and "mono clk"
    and "clk (hw s + 3 * n + 2) div F = clk (hw s + 3 * n) div F"
  shows "(\<exists>seconds prescaler prescaler2 k'.
            gettime_loop (counter_bus F clk) (hw s) = Some ((seconds, prescaler, prescaler2), k') \<and>
            prescaler \<le> prescaler2 \<and> k' \<le> hw s + 3 * n + 3) \<and>
         (\<exists>r. up_rtc_gettime (counter_bus F clk) cfg s = Some r)"
proof -
  have lt: "clk i mod F < 2 ^ 32" for i
    using assms(1,2) by (meson less_le_trans mod_less_divisor)
  have cmp: "((of_nat (clk i mod F) :: u32) < of_nat (clk j mod F)) = (clk i mod F < clk j mod F)"
    for i j by (rule u32_of_nat_less [OF lt lt])
  have "clk (hw s + 3 * n) \<le> clk (hw s + 3 * n + 2)"
    using assms(3) by (simp add: monoD)
  from same_div_mod_le [OF this assms(4) [symmetric]]
  have "\<not> clk (hw s + 3 * n + 2) mod F < clk (hw s + 3 * n) mod F"
    by (simp only: not_less)
  then have "\<not> (of_nat (clk (hw s + 3 * n + 2) mod F) :: u32) < of_nat (clk (hw s + 3 * n) mod F)"
    unfolding cmp .
  then have loop: "\<exists>seconds prescaler prescaler2 k'.
            gettime_loop (counter_bus F clk) (hw s) = Some ((seconds, prescaler, prescaler2), k') \<and>
            prescaler \<le> prescaler2 \<and> k' \<le> hw s + 3 * n + 3"
    by (rule gettime_loop_exit_by_round)
  then have "\<exists>r. up_rtc_gettime (counter_bus F clk) cfg s = Some r"
    by (auto simp: up_rtc_gettime_def bus_simps)
  with loop show ?thesis by blast
qed

text \<open>
  On \<open>clk_late\<close> the first two rounds both wrap and the third does not: the loop exits
  within three rounds.
\<close>

theorem gettime_loop_terminates_witness:
  "(0::nat) < 32768 \<and> (32768::nat) \<le> 2 ^ 32 \<and> mono clk_late \<and>
   clk_late (hw (boot_state 0 :: nat rtc) + 3 * 2 + 2) div 32768
     = clk_late (hw (boot_state 0 :: nat rtc) + 3 * 2) div 32768 \<and>
   clk_late 2 mod 32768 < clk_late 0 mod 32768 \<and>
   clk_late 5 mod 32768 < clk_late 3 mod 32768 \<and>
   (\<exists>seconds prescaler prescaler2 k'.
      gettime_loop (counter_bus 32768 clk_late) (hw (boot_state 0 :: nat rtc)) =
        Some ((seconds, prescaler, prescaler2), k') \<and>
      prescaler \<le> prescaler2 \<and> k' \<le> hw (boot_state 0 :: nat rtc) + 3 * 2 + 3) \<and>
   (\<exists>r. up_rtc_gettime (counter_bus 32768 clk_late) cfg0 (boot_state 0) = Some r)"
proof -
  have h1: "(0::nat) < 32768" by simp
  have h2: "(32768::nat) \<le> 2 ^ 32" by simp
  have h4: "clk_late (hw (boot_state 0 :: nat rtc) + 3 * 2 + 2) div 32768
              = clk_late (hw (boot_state 0 :: nat rtc) + 3 * 2) div 32768"
    by (simp add: clk_late_def boot_state_def)
  have w0: "clk_late 2 mod 32768 < clk_late 0 mod 32768"
    by (simp add: clk_late_def clk_stall_def)
  have w1: "clk_late 5 mod 32768 < clk_late 3 mod 32768"
    by (simp add: clk_late_def clk_stall_def)
  show ?thesis
    using h1 h2 mono_clk_late h4 w0 w1
      gettime_loop_terminates [OF h1 h2 mono_clk_late h4, of cfg0]
    by blast
qed

end
